theory Spec2Isabelle
  imports Main "HOL-Library.Word"
begin

section \<open>Expression model (ast.hpp, ast.cpp)\<close>

text \<open>
  \<^verbatim>\<open>std::size_t\<close> is taken to be 64 bits wide: addition wraps modulo \<open>2 ^ 64\<close>.
  \<^verbatim>\<open>Identifier\<close> is \<^verbatim>\<open>std::string\<close>.
\<close>

type_synonym size_t = "64 word"

type_synonym Identifier = string

text \<open>\<^verbatim>\<open>using Numeric = std::variant<std::size_t, AnyNumber>\<close>\<close>

datatype Numeric = Value size_t | AnyNumber

datatype ExprType = NUMERIC_CONSTANT | BINARY_ADDITION

text \<open>
  The two subclasses of \<^verbatim>\<open>Expr\<close>. A \<^verbatim>\<open>std::unique_ptr<Expr>\<close> child is owned by its parent
  alone, so an expression is a finite tree; the fields are in the order of the private
  constructors: \<open>value_, id_\<close> and \<open>left_, right_, id_\<close>.
\<close>

datatype Expr =
    NumericConstantExpr Numeric Identifier
  | BinaryAdditionExpr Expr Expr Identifier

fun Type :: "Expr \<Rightarrow> ExprType" where
  "Type (NumericConstantExpr v i) = NUMERIC_CONSTANT"
| "Type (BinaryAdditionExpr l r i) = BINARY_ADDITION"

text \<open>\<^verbatim>\<open>Id()\<close> of either subclass.\<close>

fun Id :: "Expr \<Rightarrow> Identifier" where
  "Id (NumericConstantExpr v i) = i"
| "Id (BinaryAdditionExpr l r i) = i"

text \<open>The factory functions; the overloads without an identifier store the empty string.\<close>

definition NumericConstantExpr_Make :: "Numeric \<Rightarrow> Expr" where
  "NumericConstantExpr_Make v = NumericConstantExpr v ''''"

definition NumericConstantExpr_Make_id :: "Numeric \<Rightarrow> Identifier \<Rightarrow> Expr" where
  "NumericConstantExpr_Make_id v i = NumericConstantExpr v i"

definition BinaryAdditionExpr_Make :: "Expr \<Rightarrow> Expr \<Rightarrow> Expr" where
  "BinaryAdditionExpr_Make l r = BinaryAdditionExpr l r ''''"

definition BinaryAdditionExpr_Make_id :: "Expr \<Rightarrow> Expr \<Rightarrow> Identifier \<Rightarrow> Expr" where
  "BinaryAdditionExpr_Make_id l r i = BinaryAdditionExpr l r i"

text \<open>
  Every way the program stops without a result. \<open>AssertionFailed\<close> is a failed
  \<^verbatim>\<open>assert\<close> (or, for \<^verbatim>\<open>Evaluate\<close> compiled without assertions, the
  \<^verbatim>\<open>std::bad_variant_access\<close> thrown by \<^verbatim>\<open>std::get\<close>), \<open>OutOfRange\<close> is the exception of
  \<^verbatim>\<open>std::vector::at\<close>, \<open>BadCast\<close> a \<^verbatim>\<open>static_cast\<close> to \<^verbatim>\<open>NumericConstantExpr\<close> of a node
  that is an addition.
\<close>

datatype error = AssertionFailed | OutOfRange | BadCast

text \<open>
  \<^verbatim>\<open>Evaluate\<close>: a numeric node asserts that it holds a \<^verbatim>\<open>std::size_t\<close> and returns it;
  an addition returns \<^verbatim>\<open>left_->Evaluate() + right_->Evaluate()\<close> in \<^verbatim>\<open>std::size_t\<close>.
\<close>

fun Evaluate :: "Expr \<Rightarrow> error + size_t" where
  "Evaluate (NumericConstantExpr v i) =
     (case v of Value n \<Rightarrow> Inr n | AnyNumber \<Rightarrow> Inl AssertionFailed)"
| "Evaluate (BinaryAdditionExpr l r i) =
     (case Evaluate l of
        Inl e \<Rightarrow> Inl e
      | Inr a \<Rightarrow> (case Evaluate r of Inl e \<Rightarrow> Inl e | Inr b \<Rightarrow> Inr (a + b)))"

text \<open>\<^verbatim>\<open>eval\<close> of eval.cpp.\<close>

definition eval :: "Expr \<Rightarrow> error + size_t" where
  "eval root = Evaluate root"

text \<open>\<^verbatim>\<open>Clone\<close>, as a function on values: the copy is built by the factory functions.\<close>

fun Clone :: "Expr \<Rightarrow> Expr" where
  "Clone (NumericConstantExpr v i) = NumericConstantExpr_Make_id v i"
| "Clone (BinaryAdditionExpr l r i) = BinaryAdditionExpr_Make_id (Clone l) (Clone r) i"

section \<open>Optimizer (optimizer.hpp, optimizer.cpp)\<close>

record Transform =
  Name :: string
  InputPattern :: Expr
  OutputPattern :: Expr

definition Transform_Make :: "string \<Rightarrow> Expr \<Rightarrow> Expr \<Rightarrow> Transform" where
  "Transform_Make name input_pattern output_pattern =
     \<lparr>Name = name, InputPattern = input_pattern, OutputPattern = output_pattern\<rparr>"

text \<open>
  The flattening functions push onto the vector they are given; the vector is passed in
  and returned. A pointer into the query tree is the subtree it points to.
\<close>

fun FlattenExpressionsTo :: "Expr \<Rightarrow> Expr list \<Rightarrow> Expr list" where
  "FlattenExpressionsTo (BinaryAdditionExpr l r i) expressions =
     FlattenExpressionsTo r (FlattenExpressionsTo l expressions) @ [BinaryAdditionExpr l r i]"
| "FlattenExpressionsTo (NumericConstantExpr v i) expressions =
     expressions @ [NumericConstantExpr v i]"

fun FlattenIdentifiersTo :: "Expr \<Rightarrow> Identifier list \<Rightarrow> Identifier list" where
  "FlattenIdentifiersTo (BinaryAdditionExpr l r i) identifiers =
     FlattenIdentifiersTo r (FlattenIdentifiersTo l identifiers) @ [i]"
| "FlattenIdentifiersTo (NumericConstantExpr v i) identifiers = identifiers @ [i]"

definition TransformBinaryAdditionWithZeroOnLeft :: Transform where
  "TransformBinaryAdditionWithZeroOnLeft =
     Transform_Make ''Left-wise Binary Addition with Zero''
       (BinaryAdditionExpr_Make
          (NumericConstantExpr_Make (Value 0))
          (NumericConstantExpr_Make_id AnyNumber ''right''))
       (NumericConstantExpr_Make_id AnyNumber ''right'')"

definition TransformBinaryAdditionWithZeroOnRight :: Transform where
  "TransformBinaryAdditionWithZeroOnRight =
     Transform_Make ''Right-wise Binary Addition with Zero''
       (BinaryAdditionExpr_Make
          (NumericConstantExpr_Make_id AnyNumber ''left'')
          (NumericConstantExpr_Make (Value 0)))
       (NumericConstantExpr_Make_id AnyNumber ''left'')"

text \<open>
  \<^verbatim>\<open>Optimizer::Match\<close>: different discriminants do not match; two additions match when
  both pairs of children do; two numerics are compared only when both hold a value.
\<close>

fun Match :: "Expr \<Rightarrow> Expr \<Rightarrow> bool" where
  "Match pattern query =
     (if Type pattern \<noteq> Type query then False
      else (case pattern of
          BinaryAdditionExpr pl pr pi \<Rightarrow>
            (case query of
               BinaryAdditionExpr ql qr qi \<Rightarrow> Match pl ql \<and> Match pr qr
             | NumericConstantExpr v1 qi \<Rightarrow> False)
        | NumericConstantExpr v0 pi \<Rightarrow>
            (case query of
               NumericConstantExpr v1 qi \<Rightarrow>
                 (case (v0, v1) of
                    (Value a, Value b) \<Rightarrow> a = b
                  | _ \<Rightarrow> True)
             | BinaryAdditionExpr ql qr qi \<Rightarrow> False)))"

text \<open>
  \<^verbatim>\<open>std::find\<close> followed by \<^verbatim>\<open>std::distance\<close> from the beginning: the index of the first
  occurrence, the length of the vector when there is none.
\<close>

fun find_distance :: "Identifier list \<Rightarrow> Identifier \<Rightarrow> nat" where
  "find_distance [] x = 0"
| "find_distance (y # ys) x = (if y = x then 0 else Suc (find_distance ys x))"

text \<open>
  The three-argument \<^verbatim>\<open>ApplyTransformAt\<close>, which instantiates an output pattern. The
  left operand is instantiated before the right one.
\<close>

fun ApplyTransformAt_pattern :: "Expr \<Rightarrow> Expr list \<Rightarrow> Identifier list \<Rightarrow> error + Expr" where
  "ApplyTransformAt_pattern (BinaryAdditionExpr l r i) expressions identifiers =
     (case ApplyTransformAt_pattern l expressions identifiers of
        Inl e \<Rightarrow> Inl e
      | Inr l' \<Rightarrow>
          (case ApplyTransformAt_pattern r expressions identifiers of
             Inl e \<Rightarrow> Inl e
           | Inr r' \<Rightarrow> Inr (BinaryAdditionExpr_Make l' r')))"
| "ApplyTransformAt_pattern (NumericConstantExpr v i) expressions identifiers =
     (case v of
        AnyNumber \<Rightarrow>
          (let index = find_distance identifiers i in
           if \<not> index < length identifiers then Inl AssertionFailed
           else if \<not> index < length expressions then Inl OutOfRange
           else (case expressions ! index of
                   NumericConstantExpr w j \<Rightarrow> Inr (NumericConstantExpr_Make w)
                 | BinaryAdditionExpr l r j \<Rightarrow> Inl BadCast))
      | Value n \<Rightarrow> Inr (NumericConstantExpr_Make v))"

text \<open>The two-argument \<^verbatim>\<open>ApplyTransformAt\<close>.\<close>

definition ApplyTransformAt :: "Transform \<Rightarrow> Expr \<Rightarrow> error + Expr" where
  "ApplyTransformAt transform position =
     (let expressions = FlattenExpressionsTo position [];
          identifiers = FlattenIdentifiersTo (InputPattern transform) []
      in ApplyTransformAt_pattern (OutputPattern transform) expressions identifiers)"

text \<open>
  \<^verbatim>\<open>ApplyTransform\<close>, one pass of one transform: a matching addition is replaced as a
  whole, any other addition is rebuilt, unnamed, from the passes over its children (the left
  one first), and a numeric node is cloned. The \<^verbatim>\<open>default\<close> branches of the source cannot
  be reached: \<open>ExprType\<close> has the two values handled.
\<close>

fun ApplyTransform :: "Transform \<Rightarrow> Expr \<Rightarrow> error + Expr" where
  "ApplyTransform transform (BinaryAdditionExpr l r i) =
     (if Match (InputPattern transform) (BinaryAdditionExpr l r i)
      then ApplyTransformAt transform (BinaryAdditionExpr l r i)
      else (case ApplyTransform transform l of
              Inl e \<Rightarrow> Inl e
            | Inr l' \<Rightarrow>
                (case ApplyTransform transform r of
                   Inl e \<Rightarrow> Inl e
                 | Inr r' \<Rightarrow> Inr (BinaryAdditionExpr_Make l' r'))))"
| "ApplyTransform transform (NumericConstantExpr v i) = Inr (Clone (NumericConstantExpr v i))"

text \<open>The loop of \<^verbatim>\<open>Optimize\<close> over the vector of transforms.\<close>

fun Optimize_loop :: "Transform list \<Rightarrow> Expr \<Rightarrow> error + Expr" where
  "Optimize_loop [] current = Inr current"
| "Optimize_loop (transform # transforms) current =
     (case ApplyTransform transform current of
        Inl e \<Rightarrow> Inl e
      | Inr transformed \<Rightarrow> Optimize_loop transforms transformed)"

definition Optimize :: "Expr \<Rightarrow> error + Expr" where
  "Optimize root =
     Optimize_loop
       [TransformBinaryAdditionWithZeroOnLeft, TransformBinaryAdditionWithZeroOnRight] root"

section \<open>Notions used to state the properties\<close>

text \<open>A tree is concrete when no numeric node holds \<open>AnyNumber\<close>.\<close>

fun has_AnyNumber :: "Expr \<Rightarrow> bool" where
  "has_AnyNumber (NumericConstantExpr v i) = (v = AnyNumber)"
| "has_AnyNumber (BinaryAdditionExpr l r i) = (has_AnyNumber l \<or> has_AnyNumber r)"

text \<open>The sum of the leaf values as natural numbers, without wrap-around.\<close>

fun leaf_sum :: "Expr \<Rightarrow> nat" where
  "leaf_sum (NumericConstantExpr v i) = (case v of Value n \<Rightarrow> unat n | AnyNumber \<Rightarrow> 0)"
| "leaf_sum (BinaryAdditionExpr l r i) = leaf_sum l + leaf_sum r"

text \<open>The same tree with every binding name replaced by the empty one.\<close>

fun erase_ids :: "Expr \<Rightarrow> Expr" where
  "erase_ids (NumericConstantExpr v i) = NumericConstantExpr v ''''"
| "erase_ids (BinaryAdditionExpr l r i) = BinaryAdditionExpr (erase_ids l) (erase_ids r) ''''"

text \<open>
  A tree position is the path from the root; \<open>FlattenPositions\<close> lists the positions of a
  tree in the post-order of the two flattening functions, \<open>node_at\<close> follows a path.
\<close>

datatype direction = GoLeft | GoRight

type_synonym position = "direction list"

fun FlattenPositions :: "Expr \<Rightarrow> position list" where
  "FlattenPositions (BinaryAdditionExpr l r i) =
     map ((#) GoLeft) (FlattenPositions l) @ map ((#) GoRight) (FlattenPositions r) @ [[]]"
| "FlattenPositions (NumericConstantExpr v i) = [[]]"

fun node_at :: "Expr \<Rightarrow> position \<Rightarrow> Expr option" where
  "node_at e [] = Some e"
| "node_at (BinaryAdditionExpr l r i) (GoLeft # ds) = node_at l ds"
| "node_at (BinaryAdditionExpr l r i) (GoRight # ds) = node_at r ds"
| "node_at (NumericConstantExpr v i) (d # ds) = None"

text \<open>
  \<open>ids_kept t t'\<close>: in \<open>t'\<close> every addition is unnamed, and every named node is a numeric
  leaf that occurs in \<open>t\<close>.
\<close>

definition ids_kept :: "Expr \<Rightarrow> Expr \<Rightarrow> bool" where
  "ids_kept t t' =
     (\<forall>n \<in> set (FlattenExpressionsTo t' []).
        (Type n = BINARY_ADDITION \<longrightarrow> Id n = '''')
        \<and> (Id n \<noteq> '''' \<longrightarrow> Type n = NUMERIC_CONSTANT \<and> n \<in> set (FlattenExpressionsTo t [])))"

section \<open>The expression tree in a store\<close>

text \<open>
  The functions above treat a tree as a value. \<^verbatim>\<open>Clone\<close>, \<^verbatim>\<open>ReplaceLeft\<close> and
  \<^verbatim>\<open>ReplaceRight\<close> are about which objects a pointer reaches, so here every node is an
  object at an address, and a \<^verbatim>\<open>std::unique_ptr<Expr>\<close> member is the address of the child.
  \<^verbatim>\<open>new\<close> takes the next unused address; an address is never handed out twice.
\<close>

type_synonym addr = nat

datatype node =
    NumericNode Numeric Identifier
  | AdditionNode addr addr Identifier

record heap =
  cells :: "addr \<rightharpoonup> node"
  next_free :: addr

definition new :: "node \<Rightarrow> heap \<Rightarrow> addr \<times> heap" where
  "new n h =
     (next_free h, h\<lparr>cells := (cells h)(next_free h \<mapsto> n), next_free := Suc (next_free h)\<rparr>)"

definition free :: "addr \<Rightarrow> heap \<Rightarrow> heap" where
  "free a h = h\<lparr>cells := (cells h)(a := None)\<rparr>"

text \<open>
  \<^verbatim>\<open>Clone\<close> through a pointer: a numeric node makes a new numeric node with its value and
  identifier; an addition clones its left child, then its right child, and makes a new
  addition of the two copies with its own identifier. The recursion follows pointers, so
  the function is partial: \<open>None\<close> stands for no result, which is also the outcome of
  following an address that holds no object.
\<close>

partial_function (option) Clone_heap :: "addr \<Rightarrow> heap \<Rightarrow> (addr \<times> heap) option" where
  "Clone_heap a h =
     (case cells h a of
        None \<Rightarrow> None
      | Some (NumericNode v i) \<Rightarrow> Some (new (NumericNode v i) h)
      | Some (AdditionNode l r i) \<Rightarrow>
          Option.bind (Clone_heap l h) (\<lambda>(l', h1).
          Option.bind (Clone_heap r h1) (\<lambda>(r', h2).
          Some (new (AdditionNode l' r' i) h2))))"

text \<open>\<^verbatim>\<open>Evaluate\<close> through a pointer.\<close>

partial_function (option) Evaluate_heap :: "addr \<Rightarrow> heap \<Rightarrow> (error + size_t) option" where
  "Evaluate_heap a h =
     (case cells h a of
        None \<Rightarrow> None
      | Some (NumericNode v i) \<Rightarrow>
          Some (case v of Value n \<Rightarrow> Inr n | AnyNumber \<Rightarrow> Inl AssertionFailed)
      | Some (AdditionNode l r i) \<Rightarrow>
          Option.bind (Evaluate_heap l h) (\<lambda>x.
            case x of
              Inl e \<Rightarrow> Some (Inl e)
            | Inr m \<Rightarrow>
                Option.bind (Evaluate_heap r h) (\<lambda>y.
                  case y of Inl e \<Rightarrow> Some (Inl e) | Inr n \<Rightarrow> Some (Inr (m + n)))))"

text \<open>
  \<^verbatim>\<open>delete\<close> of an expression: the destructor of an addition destroys its members in
  reverse order of declaration (\<open>right_\<close>, then \<open>left_\<close>), each \<^verbatim>\<open>unique_ptr\<close> deleting its
  child; then the object itself is released.
\<close>

partial_function (option) delete :: "addr \<Rightarrow> heap \<Rightarrow> heap option" where
  "delete a h =
     (case cells h a of
        None \<Rightarrow> None
      | Some (NumericNode v i) \<Rightarrow> Some (free a h)
      | Some (AdditionNode l r i) \<Rightarrow>
          Option.bind (delete r h) (\<lambda>h1.
          Option.bind (delete l h1) (\<lambda>h2.
          Some (free a h2))))"

text \<open>
  \<^verbatim>\<open>ReplaceLeft\<close> and \<^verbatim>\<open>ReplaceRight\<close> move-assign the member: the member takes the new
  pointer, then the old child is deleted. Only \<^verbatim>\<open>BinaryAdditionExpr\<close> has these methods.
\<close>

definition ReplaceLeft :: "addr \<Rightarrow> addr \<Rightarrow> heap \<Rightarrow> heap option" where
  "ReplaceLeft this left h =
     (case cells h this of
        Some (AdditionNode l r i) \<Rightarrow>
          delete l (h\<lparr>cells := (cells h)(this \<mapsto> AdditionNode left r i)\<rparr>)
      | _ \<Rightarrow> None)"

definition ReplaceRight :: "addr \<Rightarrow> addr \<Rightarrow> heap \<Rightarrow> heap option" where
  "ReplaceRight this right h =
     (case cells h this of
        Some (AdditionNode l r i) \<Rightarrow>
          delete r (h\<lparr>cells := (cells h)(this \<mapsto> AdditionNode l right i)\<rparr>)
      | _ \<Rightarrow> None)"

text \<open>
  \<open>represents h a t\<close>: the object at \<open>a\<close> is the root of a copy of the tree \<open>t\<close> in which
  no object is reached twice (every child has one owner); \<open>footprint h a t\<close> is the set of
  addresses of that copy.
\<close>

fun footprint :: "heap \<Rightarrow> addr \<Rightarrow> Expr \<Rightarrow> addr set" where
  "footprint h a (NumericConstantExpr v i) = {a}"
| "footprint h a (BinaryAdditionExpr l r i) =
     (case cells h a of
        Some (AdditionNode al ar j) \<Rightarrow> insert a (footprint h al l \<union> footprint h ar r)
      | _ \<Rightarrow> {a})"

fun represents :: "heap \<Rightarrow> addr \<Rightarrow> Expr \<Rightarrow> bool" where
  "represents h a (NumericConstantExpr v i) = (cells h a = Some (NumericNode v i))"
| "represents h a (BinaryAdditionExpr l r i) =
     (case cells h a of
        Some (AdditionNode al ar j) \<Rightarrow>
          j = i \<and> represents h al l \<and> represents h ar r
          \<and> a \<notin> footprint h al l \<and> a \<notin> footprint h ar r
          \<and> footprint h al l \<inter> footprint h ar r = {}
      | _ \<Rightarrow> False)"

text \<open>Every object lies below the next unused address.\<close>

definition wf_heap :: "heap \<Rightarrow> bool" where
  "wf_heap h = (\<forall>a \<in> dom (cells h). a < next_free h)"

text \<open>\<open>agree_on A h h'\<close>: the two stores hold the same objects at the addresses in \<open>A\<close>.\<close>

definition agree_on :: "addr set \<Rightarrow> heap \<Rightarrow> heap \<Rightarrow> bool" where
  "agree_on A h h' = (\<forall>a \<in> A. cells h' a = cells h a)"

section \<open>Basic facts\<close>

declare Match.simps [simp del]

lemma Match_Add_Add [simp]:
  "Match (BinaryAdditionExpr pl pr pi) (BinaryAdditionExpr ql qr qi) = (Match pl ql \<and> Match pr qr)"
  by (simp add: Match.simps)

lemma Match_Num_Num [simp]:
  "Match (NumericConstantExpr v0 pi) (NumericConstantExpr v1 qi) =
     (case (v0, v1) of (Value a, Value b) \<Rightarrow> a = b | _ \<Rightarrow> True)"
  by (simp add: Match.simps)

lemma Match_Num_Add [simp]: "\<not> Match (NumericConstantExpr v0 pi) (BinaryAdditionExpr ql qr qi)"
  by (simp add: Match.simps)

lemma Match_Add_Num [simp]: "\<not> Match (BinaryAdditionExpr pl pr pi) (NumericConstantExpr v1 qi)"
  by (simp add: Match.simps)

lemma Match_Type: "Match p q \<Longrightarrow> Type p = Type q"
  by (cases p; cases q) simp_all

lemma Match_erase_ids: "Match (erase_ids p) (erase_ids q) = Match p q"
proof (induction p arbitrary: q)
  case (NumericConstantExpr v i)
  show ?case by (cases q) simp_all
next
  case (BinaryAdditionExpr l r i)
  then show ?case by (cases q) simp_all
qed

lemma Numeric_match_iff:
  "(case (v0, v1) of (Value a, Value b) \<Rightarrow> a = b | _ \<Rightarrow> True) =
     (v0 = AnyNumber \<or> v1 = AnyNumber \<or> (\<exists>a. v0 = Value a \<and> v1 = Value a))"
  by (cases v0; cases v1) auto

lemmas Make_defs =
  NumericConstantExpr_Make_def NumericConstantExpr_Make_id_def
  BinaryAdditionExpr_Make_def BinaryAdditionExpr_Make_id_def Transform_Make_def

lemma Clone_id [simp]: "Clone e = e"
  by (induction e) (simp_all add: Make_defs)

lemma InputPattern_Left [simp]:
  "InputPattern TransformBinaryAdditionWithZeroOnLeft =
     BinaryAdditionExpr (NumericConstantExpr (Value 0) '''') (NumericConstantExpr AnyNumber ''right'') ''''"
  by (simp add: TransformBinaryAdditionWithZeroOnLeft_def Make_defs)

lemma InputPattern_Right [simp]:
  "InputPattern TransformBinaryAdditionWithZeroOnRight =
     BinaryAdditionExpr (NumericConstantExpr AnyNumber ''left'') (NumericConstantExpr (Value 0) '''') ''''"
  by (simp add: TransformBinaryAdditionWithZeroOnRight_def Make_defs)

lemma OutputPattern_Left [simp]:
  "OutputPattern TransformBinaryAdditionWithZeroOnLeft = NumericConstantExpr AnyNumber ''right''"
  by (simp add: TransformBinaryAdditionWithZeroOnLeft_def Make_defs)

lemma OutputPattern_Right [simp]:
  "OutputPattern TransformBinaryAdditionWithZeroOnRight = NumericConstantExpr AnyNumber ''left''"
  by (simp add: TransformBinaryAdditionWithZeroOnRight_def Make_defs)

lemma Match_Left_iff:
  "Match (InputPattern TransformBinaryAdditionWithZeroOnLeft) t =
     (\<exists>v i w j k. t = BinaryAdditionExpr (NumericConstantExpr v i) (NumericConstantExpr w j) k
        \<and> (v = Value 0 \<or> v = AnyNumber))"
proof (cases t)
  case (NumericConstantExpr v i)
  then show ?thesis by simp
next
  case (BinaryAdditionExpr l r k)
  then show ?thesis
    by (cases l; cases r) (auto split: Numeric.splits)
qed

lemma Match_Right_iff:
  "Match (InputPattern TransformBinaryAdditionWithZeroOnRight) t =
     (\<exists>v i w j k. t = BinaryAdditionExpr (NumericConstantExpr v i) (NumericConstantExpr w j) k
        \<and> (w = Value 0 \<or> w = AnyNumber))"
proof (cases t)
  case (NumericConstantExpr v i)
  then show ?thesis by simp
next
  case (BinaryAdditionExpr l r k)
  then show ?thesis
    by (cases l; cases r) (auto split: Numeric.splits)
qed

lemma ApplyTransformAt_Left:
  "ApplyTransformAt TransformBinaryAdditionWithZeroOnLeft
     (BinaryAdditionExpr (NumericConstantExpr v i) (NumericConstantExpr w j) k)
   = Inr (NumericConstantExpr w '''')"
  by (simp add: ApplyTransformAt_def Make_defs)

lemma ApplyTransformAt_Right:
  "ApplyTransformAt TransformBinaryAdditionWithZeroOnRight
     (BinaryAdditionExpr (NumericConstantExpr v i) (NumericConstantExpr w j) k)
   = Inr (NumericConstantExpr v '''')"
  by (simp add: ApplyTransformAt_def Make_defs)

lemma Evaluate_concrete: "\<not> has_AnyNumber t \<Longrightarrow> \<exists>n. Evaluate t = Inr n"
  by (induction t) (auto split: Numeric.splits)

lemma Evaluate_error: "Evaluate t = Inl e \<Longrightarrow> e = AssertionFailed"
  by (induction t) (auto split: Numeric.splits sum.splits)

lemma Evaluate_wildcard: "has_AnyNumber t \<Longrightarrow> Evaluate t = Inl AssertionFailed"
  by (induction t) (auto split: Numeric.splits sum.splits dest: Evaluate_error)

lemma Evaluate_word_of_nat:
  "\<not> has_AnyNumber t \<Longrightarrow> Evaluate t = Inr (word_of_nat (leaf_sum t))"
  by (induction t) (auto split: Numeric.splits)

lemma pass_Left:
  "\<not> has_AnyNumber t \<Longrightarrow>
     \<exists>t'. ApplyTransform TransformBinaryAdditionWithZeroOnLeft t = Inr t'
       \<and> \<not> has_AnyNumber t' \<and> Evaluate t' = Evaluate t"
proof (induction t)
  case (NumericConstantExpr v i)
  then show ?case by simp
next
  case (BinaryAdditionExpr l r k)
  show ?case
  proof (cases "Match (InputPattern TransformBinaryAdditionWithZeroOnLeft) (BinaryAdditionExpr l r k)")
    case True
    then obtain v i w j where lr: "l = NumericConstantExpr v i" "r = NumericConstantExpr w j"
      and v: "v = Value 0 \<or> v = AnyNumber"
      unfolding Match_Left_iff by auto
    from BinaryAdditionExpr.prems lr v have v0: "v = Value 0" by auto
    from BinaryAdditionExpr.prems lr obtain n where w: "w = Value n" by (cases w) auto
    from True show ?thesis
      by (simp add: lr v0 w ApplyTransformAt_Left del: InputPattern_Left)
  next
    case False
    from BinaryAdditionExpr obtain l' r' where
      l': "ApplyTransform TransformBinaryAdditionWithZeroOnLeft l = Inr l'"
          "\<not> has_AnyNumber l'" "Evaluate l' = Evaluate l"
      and r': "ApplyTransform TransformBinaryAdditionWithZeroOnLeft r = Inr r'"
          "\<not> has_AnyNumber r'" "Evaluate r' = Evaluate r"
      by auto
    from False show ?thesis
      by (simp add: l' r' Make_defs del: InputPattern_Left cong: sum.case_cong)
  qed
qed

lemma pass_Right:
  "\<not> has_AnyNumber t \<Longrightarrow>
     \<exists>t'. ApplyTransform TransformBinaryAdditionWithZeroOnRight t = Inr t'
       \<and> \<not> has_AnyNumber t' \<and> Evaluate t' = Evaluate t"
proof (induction t)
  case (NumericConstantExpr v i)
  then show ?case by simp
next
  case (BinaryAdditionExpr l r k)
  show ?case
  proof (cases "Match (InputPattern TransformBinaryAdditionWithZeroOnRight) (BinaryAdditionExpr l r k)")
    case True
    then obtain v i w j where lr: "l = NumericConstantExpr v i" "r = NumericConstantExpr w j"
      and w: "w = Value 0 \<or> w = AnyNumber"
      unfolding Match_Right_iff by auto
    from BinaryAdditionExpr.prems lr w have w0: "w = Value 0" by auto
    from BinaryAdditionExpr.prems lr obtain n where v: "v = Value n" by (cases v) auto
    from True show ?thesis
      by (simp add: lr w0 v ApplyTransformAt_Right del: InputPattern_Right)
  next
    case False
    from BinaryAdditionExpr obtain l' r' where
      l': "ApplyTransform TransformBinaryAdditionWithZeroOnRight l = Inr l'"
          "\<not> has_AnyNumber l'" "Evaluate l' = Evaluate l"
      and r': "ApplyTransform TransformBinaryAdditionWithZeroOnRight r = Inr r'"
          "\<not> has_AnyNumber r'" "Evaluate r' = Evaluate r"
      by auto
    from False show ?thesis
      by (simp add: l' r' Make_defs del: InputPattern_Right cong: sum.case_cong)
  qed
qed

lemma FlattenExpressionsTo_append:
  "FlattenExpressionsTo e acc = acc @ FlattenExpressionsTo e []"
proof (induction e arbitrary: acc)
  case (NumericConstantExpr v i)
  show ?case by simp
next
  case (BinaryAdditionExpr l r i)
  show ?case
    using BinaryAdditionExpr.IH(1) [of acc]
      BinaryAdditionExpr.IH(2) [of "acc @ FlattenExpressionsTo l []"]
      BinaryAdditionExpr.IH(2) [of "FlattenExpressionsTo l []"]
    by simp
qed

lemma FlattenIdentifiersTo_append:
  "FlattenIdentifiersTo e acc = acc @ FlattenIdentifiersTo e []"
proof (induction e arbitrary: acc)
  case (NumericConstantExpr v i)
  show ?case by simp
next
  case (BinaryAdditionExpr l r i)
  show ?case
    using BinaryAdditionExpr.IH(1) [of acc]
      BinaryAdditionExpr.IH(2) [of "acc @ FlattenIdentifiersTo l []"]
      BinaryAdditionExpr.IH(2) [of "FlattenIdentifiersTo l []"]
    by simp
qed

lemma FlattenExpressionsTo_Add:
  "FlattenExpressionsTo (BinaryAdditionExpr l r i) [] =
     FlattenExpressionsTo l [] @ FlattenExpressionsTo r [] @ [BinaryAdditionExpr l r i]"
  using FlattenExpressionsTo_append [of r "FlattenExpressionsTo l []"] by simp

lemma FlattenIdentifiersTo_Add:
  "FlattenIdentifiersTo (BinaryAdditionExpr l r i) [] =
     FlattenIdentifiersTo l [] @ FlattenIdentifiersTo r [] @ [i]"
  using FlattenIdentifiersTo_append [of r "FlattenIdentifiersTo l []"] by simp

lemma node_at_FlattenPositions:
  "map (node_at e) (FlattenPositions e) = map Some (FlattenExpressionsTo e [])"
proof (induction e)
  case (NumericConstantExpr v i)
  show ?case by simp
next
  case (BinaryAdditionExpr l r i)
  have "map (node_at (BinaryAdditionExpr l r i)) (FlattenPositions (BinaryAdditionExpr l r i))
        = map (node_at l) (FlattenPositions l) @ map (node_at r) (FlattenPositions r)
          @ [Some (BinaryAdditionExpr l r i)]"
    by (simp add: comp_def)
  with BinaryAdditionExpr show ?case
    by (simp add: FlattenExpressionsTo_Add del: FlattenExpressionsTo.simps(1))
qed

lemma Id_at_FlattenPositions:
  "map (\<lambda>pos. map_option Id (node_at e pos)) (FlattenPositions e)
     = map Some (FlattenIdentifiersTo e [])"
proof (induction e)
  case (NumericConstantExpr v i)
  show ?case by simp
next
  case (BinaryAdditionExpr l r i)
  have "map (\<lambda>pos. map_option Id (node_at (BinaryAdditionExpr l r i) pos))
          (FlattenPositions (BinaryAdditionExpr l r i))
        = map (\<lambda>pos. map_option Id (node_at l pos)) (FlattenPositions l)
          @ map (\<lambda>pos. map_option Id (node_at r pos)) (FlattenPositions r)
          @ [Some i]"
    by (simp add: comp_def)
  with BinaryAdditionExpr show ?case
    by (simp add: FlattenIdentifiersTo_Add del: FlattenIdentifiersTo.simps(1))
qed

lemma length_FlattenExpressionsTo:
  "length (FlattenExpressionsTo e []) = length (FlattenPositions e)"
  using arg_cong [OF node_at_FlattenPositions [of e], of length] by simp

lemma length_FlattenIdentifiersTo:
  "length (FlattenIdentifiersTo e []) = length (FlattenPositions e)"
  using arg_cong [OF Id_at_FlattenPositions [of e], of length] by simp

lemma Match_FlattenPositions: "Match p q \<Longrightarrow> FlattenPositions p = FlattenPositions q"
proof (induction p arbitrary: q)
  case (NumericConstantExpr v i)
  then show ?case by (cases q) simp_all
next
  case (BinaryAdditionExpr l r i)
  then show ?case by (cases q) auto
qed

lemma distinct_FlattenPositions: "distinct (FlattenPositions e)"
  by (induction e) (auto simp: distinct_map inj_on_def)

lemma ids_kept_leaf: "ids_kept (NumericConstantExpr v i) (NumericConstantExpr v i)"
  by (simp add: ids_kept_def)

lemma ids_kept_unnamed_leaf: "ids_kept t (NumericConstantExpr v '''')"
  by (simp add: ids_kept_def)

lemma ids_kept_Add:
  "ids_kept l l' \<Longrightarrow> ids_kept r r' \<Longrightarrow>
     ids_kept (BinaryAdditionExpr l r i) (BinaryAdditionExpr l' r' '''')"
  unfolding ids_kept_def FlattenExpressionsTo_Add by auto

lemma ids_kept_trans: "ids_kept t t1 \<Longrightarrow> ids_kept t1 t2 \<Longrightarrow> ids_kept t t2"
  unfolding ids_kept_def by blast

lemma pass_Left_ids:
  "\<exists>t'. ApplyTransform TransformBinaryAdditionWithZeroOnLeft t = Inr t' \<and> ids_kept t t'"
proof (induction t)
  case (NumericConstantExpr v i)
  show ?case by (simp add: ids_kept_leaf)
next
  case (BinaryAdditionExpr l r k)
  show ?case
  proof (cases "Match (InputPattern TransformBinaryAdditionWithZeroOnLeft) (BinaryAdditionExpr l r k)")
    case True
    then obtain v i w j where lr: "l = NumericConstantExpr v i" "r = NumericConstantExpr w j"
      unfolding Match_Left_iff by auto
    from True show ?thesis
      by (simp add: lr ApplyTransformAt_Left ids_kept_unnamed_leaf del: InputPattern_Left)
  next
    case False
    from BinaryAdditionExpr obtain l' r' where
      l': "ApplyTransform TransformBinaryAdditionWithZeroOnLeft l = Inr l'" "ids_kept l l'"
      and r': "ApplyTransform TransformBinaryAdditionWithZeroOnLeft r = Inr r'" "ids_kept r r'"
      by auto
    from False show ?thesis
      by (simp add: l' r' Make_defs ids_kept_Add del: InputPattern_Left)
  qed
qed

lemma pass_Right_ids:
  "\<exists>t'. ApplyTransform TransformBinaryAdditionWithZeroOnRight t = Inr t' \<and> ids_kept t t'"
proof (induction t)
  case (NumericConstantExpr v i)
  show ?case by (simp add: ids_kept_leaf)
next
  case (BinaryAdditionExpr l r k)
  show ?case
  proof (cases "Match (InputPattern TransformBinaryAdditionWithZeroOnRight) (BinaryAdditionExpr l r k)")
    case True
    then obtain v i w j where lr: "l = NumericConstantExpr v i" "r = NumericConstantExpr w j"
      unfolding Match_Right_iff by auto
    from True show ?thesis
      by (simp add: lr ApplyTransformAt_Right ids_kept_unnamed_leaf del: InputPattern_Right)
  next
    case False
    from BinaryAdditionExpr obtain l' r' where
      l': "ApplyTransform TransformBinaryAdditionWithZeroOnRight l = Inr l'" "ids_kept l l'"
      and r': "ApplyTransform TransformBinaryAdditionWithZeroOnRight r = Inr r'" "ids_kept r r'"
      by auto
    from False show ?thesis
      by (simp add: l' r' Make_defs ids_kept_Add del: InputPattern_Right)
  qed
qed

section \<open>Facts about the store\<close>

lemma represents_Add_cases:
  assumes "represents h a (BinaryAdditionExpr l r i)"
  obtains al ar where "cells h a = Some (AdditionNode al ar i)"
    and "represents h al l" and "represents h ar r"
    and "a \<notin> footprint h al l" and "a \<notin> footprint h ar r"
    and "footprint h al l \<inter> footprint h ar r = {}"
  using assms by (auto split: option.splits node.splits)

lemma footprint_Add:
  "cells h a = Some (AdditionNode al ar j) \<Longrightarrow>
     footprint h a (BinaryAdditionExpr l r i) = insert a (footprint h al l \<union> footprint h ar r)"
  by simp

lemma represents_Add_intro:
  "cells h a = Some (AdditionNode al ar i) \<Longrightarrow> represents h al l \<Longrightarrow> represents h ar r \<Longrightarrow>
   a \<notin> footprint h al l \<Longrightarrow> a \<notin> footprint h ar r \<Longrightarrow>
   footprint h al l \<inter> footprint h ar r = {} \<Longrightarrow>
   represents h a (BinaryAdditionExpr l r i)"
  by simp

lemma represents_frame:
  "represents h a t \<Longrightarrow> agree_on (footprint h a t) h h' \<Longrightarrow>
     represents h' a t \<and> footprint h' a t = footprint h a t"
proof (induction t arbitrary: a)
  case (NumericConstantExpr v i)
  then show ?case by (simp add: agree_on_def)
next
  case (BinaryAdditionExpr l r i)
  from BinaryAdditionExpr.prems(1) obtain al ar where
    c: "cells h a = Some (AdditionNode al ar i)"
    and rl: "represents h al l" and rr: "represents h ar r"
    and nl: "a \<notin> footprint h al l" and nr: "a \<notin> footprint h ar r"
    and dj: "footprint h al l \<inter> footprint h ar r = {}"
    by (rule represents_Add_cases)
  note fp = footprint_Add [OF c, of l r i]
  from BinaryAdditionExpr.prems(2) have c': "cells h' a = Some (AdditionNode al ar i)"
    unfolding fp agree_on_def using c by simp
  from BinaryAdditionExpr.prems(2) have "agree_on (footprint h al l) h h'"
    and "agree_on (footprint h ar r) h h'"
    unfolding fp agree_on_def by simp_all
  with BinaryAdditionExpr.IH rl rr have
    l': "represents h' al l" "footprint h' al l = footprint h al l"
    and r': "represents h' ar r" "footprint h' ar r = footprint h ar r"
    by blast+
  have "represents h' a (BinaryAdditionExpr l r i)"
    by (rule represents_Add_intro [OF c' l'(1) r'(1)]) (simp_all add: l'(2) r'(2) nl nr dj)
  moreover have "footprint h' a (BinaryAdditionExpr l r i) = footprint h a (BinaryAdditionExpr l r i)"
    unfolding fp footprint_Add [OF c', of l r i] using l' r' by simp
  ultimately show ?case ..
qed

lemma footprint_dom: "represents h a t \<Longrightarrow> footprint h a t \<subseteq> dom (cells h)"
proof (induction t arbitrary: a)
  case (NumericConstantExpr v i)
  then show ?case by auto
next
  case (BinaryAdditionExpr l r i)
  from BinaryAdditionExpr.prems obtain al ar where
    c: "cells h a = Some (AdditionNode al ar i)"
    and rl: "represents h al l" and rr: "represents h ar r"
    by (rule represents_Add_cases)
  from BinaryAdditionExpr.IH rl rr c show ?case
    unfolding footprint_Add [OF c, of l r i] by auto
qed

lemma Evaluate_heap_represents:
  "represents h a t \<Longrightarrow> Evaluate_heap a h = Some (Evaluate t)"
proof (induction t arbitrary: a)
  case (NumericConstantExpr v i)
  then show ?case
    by (subst Evaluate_heap.simps) simp
next
  case (BinaryAdditionExpr l r i)
  from BinaryAdditionExpr.prems obtain al ar where
    c: "cells h a = Some (AdditionNode al ar i)"
    and rl: "represents h al l" and rr: "represents h ar r"
    by (rule represents_Add_cases)
  from BinaryAdditionExpr.IH rl rr have
    "Evaluate_heap al h = Some (Evaluate l)" "Evaluate_heap ar h = Some (Evaluate r)"
    by blast+
  then show ?case
    by (subst Evaluate_heap.simps) (simp add: c split: sum.splits)
qed

lemma footprint_below: "wf_heap h \<Longrightarrow> represents h a t \<Longrightarrow> x \<in> footprint h a t \<Longrightarrow> x < next_free h"
  using footprint_dom [of h a t] unfolding wf_heap_def by blast

lemma Clone_heap_represents:
  "wf_heap h \<Longrightarrow> represents h a t \<Longrightarrow>
     \<exists>a' h'. Clone_heap a h = Some (a', h') \<and> wf_heap h' \<and> next_free h \<le> next_free h'
       \<and> (\<forall>x. x < next_free h \<longrightarrow> cells h' x = cells h x)
       \<and> represents h' a' t
       \<and> footprint h' a' t \<subseteq> {next_free h ..< next_free h'}"
proof (induction t arbitrary: a h)
  case (NumericConstantExpr v i)
  from NumericConstantExpr.prems(2) have c: "cells h a = Some (NumericNode v i)" by simp
  have "Clone_heap a h = Some (new (NumericNode v i) h)"
    by (subst Clone_heap.simps) (simp add: c)
  moreover from NumericConstantExpr.prems(1) have "wf_heap (snd (new (NumericNode v i) h))"
    by (auto simp: wf_heap_def new_def less_Suc_eq)
  ultimately show ?case
    by (simp add: new_def)
next
  case (BinaryAdditionExpr l r i)
  note wf = BinaryAdditionExpr.prems(1)
  from BinaryAdditionExpr.prems(2) obtain al ar where
    c: "cells h a = Some (AdditionNode al ar i)"
    and rl: "represents h al l" and rr: "represents h ar r"
    by (rule represents_Add_cases)
  from BinaryAdditionExpr.IH(1) [OF wf rl] obtain l' h1 where
    cl: "Clone_heap al h = Some (l', h1)" and wf1: "wf_heap h1"
    and le1: "next_free h \<le> next_free h1"
    and old1: "\<And>x. x < next_free h \<Longrightarrow> cells h1 x = cells h x"
    and rl1: "represents h1 l' l"
    and fl1: "footprint h1 l' l \<subseteq> {next_free h ..< next_free h1}"
    by blast
  have "agree_on (footprint h ar r) h h1"
    unfolding agree_on_def using footprint_below [OF wf rr] old1 by blast
  with rr have rr1: "represents h1 ar r"
    using represents_frame by blast
  from BinaryAdditionExpr.IH(2) [OF wf1 rr1] obtain r' h2 where
    cr: "Clone_heap ar h1 = Some (r', h2)" and wf2: "wf_heap h2"
    and le2: "next_free h1 \<le> next_free h2"
    and old2: "\<And>x. x < next_free h1 \<Longrightarrow> cells h2 x = cells h1 x"
    and rr2: "represents h2 r' r"
    and fr2: "footprint h2 r' r \<subseteq> {next_free h1 ..< next_free h2}"
    by blast
  define a' where "a' = next_free h2"
  define h3 where "h3 = snd (new (AdditionNode l' r' i) h2)"
  have new3: "new (AdditionNode l' r' i) h2 = (a', h3)"
    by (simp add: a'_def h3_def new_def)
  have cells3: "cells h3 = (cells h2)(a' \<mapsto> AdditionNode l' r' i)"
    and next3: "next_free h3 = Suc a'"
    by (simp_all add: a'_def h3_def new_def)
  have clone: "Clone_heap a h = Some (a', h3)"
    by (subst Clone_heap.simps) (simp add: c cl cr new3)
  have wf3: "wf_heap h3"
    using wf2 by (auto simp: wf_heap_def cells3 next3 a'_def less_Suc_eq)
  have "agree_on (footprint h1 l' l) h1 h3"
    unfolding agree_on_def cells3 a'_def using fl1 old2 le2 by auto
  with rl1 have rl3: "represents h3 l' l" and fl3: "footprint h3 l' l = footprint h1 l' l"
    using represents_frame by blast+
  have "agree_on (footprint h2 r' r) h2 h3"
    unfolding agree_on_def cells3 a'_def using fr2 by auto
  with rr2 have rr3: "represents h3 r' r" and fr3: "footprint h3 r' r = footprint h2 r' r"
    using represents_frame by blast+
  have c3: "cells h3 a' = Some (AdditionNode l' r' i)"
    by (simp add: cells3)
  have r3: "represents h3 a' (BinaryAdditionExpr l r i)"
  proof (rule represents_Add_intro [OF c3 rl3 rr3])
    show "a' \<notin> footprint h3 l' l"
      unfolding fl3 a'_def using fl1 le2 by auto
    show "a' \<notin> footprint h3 r' r"
      unfolding fr3 a'_def using fr2 by auto
    show "footprint h3 l' l \<inter> footprint h3 r' r = {}"
      unfolding fl3 fr3 using fl1 fr2 by fastforce
  qed
  have "footprint h3 a' (BinaryAdditionExpr l r i)
      = insert a' (footprint h1 l' l \<union> footprint h2 r' r)"
    by (simp only: footprint_Add [OF c3] fl3 fr3)
  then have f3: "footprint h3 a' (BinaryAdditionExpr l r i) \<subseteq> {next_free h ..< next_free h3}"
    unfolding next3 a'_def using fl1 fr2 le1 le2 by fastforce
  have old3: "\<forall>x. x < next_free h \<longrightarrow> cells h3 x = cells h x"
    unfolding cells3 a'_def using old1 old2 le1 le2 by auto
  have "next_free h \<le> next_free h3"
    unfolding next3 a'_def using le1 le2 by simp
  with clone wf3 old3 r3 f3 show ?case by blast
qed

lemma delete_represents:
  "represents h a t \<Longrightarrow>
     \<exists>h'. delete a h = Some h' \<and> next_free h' = next_free h
       \<and> cells h' = (\<lambda>x. if x \<in> footprint h a t then None else cells h x)"
proof (induction t arbitrary: a h)
  case (NumericConstantExpr v i)
  from NumericConstantExpr.prems have c: "cells h a = Some (NumericNode v i)" by simp
  have "delete a h = Some (free a h)"
    by (subst delete.simps) (simp add: c)
  then show ?case
    by (auto simp: free_def)
next
  case (BinaryAdditionExpr l r i)
  from BinaryAdditionExpr.prems obtain al ar where
    c: "cells h a = Some (AdditionNode al ar i)"
    and rl: "represents h al l" and rr: "represents h ar r"
    and nl: "a \<notin> footprint h al l" and nr: "a \<notin> footprint h ar r"
    and dj: "footprint h al l \<inter> footprint h ar r = {}"
    by (rule represents_Add_cases)
  from BinaryAdditionExpr.IH(2) [OF rr] obtain h1 where
    d1: "delete ar h = Some h1" and n1: "next_free h1 = next_free h"
    and c1: "cells h1 = (\<lambda>x. if x \<in> footprint h ar r then None else cells h x)"
    by blast
  have "agree_on (footprint h al l) h h1"
    unfolding agree_on_def c1 using dj by auto
  with rl have rl1: "represents h1 al l" and fl1: "footprint h1 al l = footprint h al l"
    using represents_frame by blast+
  from BinaryAdditionExpr.IH(1) [OF rl1] obtain h2 where
    d2: "delete al h1 = Some h2" and n2: "next_free h2 = next_free h1"
    and c2: "cells h2 = (\<lambda>x. if x \<in> footprint h1 al l then None else cells h1 x)"
    by blast
  have "delete a h = Some (free a h2)"
    by (subst delete.simps) (simp add: c d1 d2)
  moreover have "next_free (free a h2) = next_free h"
    by (simp add: free_def n1 n2)
  moreover have "cells (free a h2)
      = (\<lambda>x. if x \<in> footprint h a (BinaryAdditionExpr l r i) then None else cells h x)"
    unfolding footprint_Add [OF c] by (auto simp: free_def c2 c1 fl1)
  ultimately show ?case by blast
qed

lemma ReplaceLeft_cells:
  assumes "represents h a (BinaryAdditionExpr l r i)"
  shows "\<exists>al ar h'. cells h a = Some (AdditionNode al ar i) \<and> ReplaceLeft a c h = Some h'
    \<and> cells h' = (\<lambda>x. if x \<in> footprint h al l then None
                        else if x = a then Some (AdditionNode c ar i) else cells h x)"
proof -
  from assms obtain al ar where
    ca: "cells h a = Some (AdditionNode al ar i)"
    and rl: "represents h al l" and nl: "a \<notin> footprint h al l"
    by (rule represents_Add_cases)
  define hm where "hm = h\<lparr>cells := (cells h)(a \<mapsto> AdditionNode c ar i)\<rparr>"
  have "agree_on (footprint h al l) h hm"
    unfolding agree_on_def hm_def using nl by auto
  with rl have rlm: "represents hm al l" and flm: "footprint hm al l = footprint h al l"
    using represents_frame by blast+
  from delete_represents [OF rlm] obtain h' where
    d: "delete al hm = Some h'"
    and c': "cells h' = (\<lambda>x. if x \<in> footprint hm al l then None else cells hm x)"
    by blast
  have "ReplaceLeft a c h = Some h'"
    by (simp add: ReplaceLeft_def ca d [unfolded hm_def])
  moreover have "cells h' = (\<lambda>x. if x \<in> footprint h al l then None
                        else if x = a then Some (AdditionNode c ar i) else cells h x)"
    unfolding c' flm by (auto simp: hm_def)
  ultimately show ?thesis using ca by blast
qed

lemma ReplaceRight_cells:
  assumes "represents h a (BinaryAdditionExpr l r i)"
  shows "\<exists>al ar h'. cells h a = Some (AdditionNode al ar i) \<and> ReplaceRight a c h = Some h'
    \<and> cells h' = (\<lambda>x. if x \<in> footprint h ar r then None
                        else if x = a then Some (AdditionNode al c i) else cells h x)"
proof -
  from assms obtain al ar where
    ca: "cells h a = Some (AdditionNode al ar i)"
    and rr: "represents h ar r" and nr: "a \<notin> footprint h ar r"
    by (rule represents_Add_cases)
  define hm where "hm = h\<lparr>cells := (cells h)(a \<mapsto> AdditionNode al c i)\<rparr>"
  have "agree_on (footprint h ar r) h hm"
    unfolding agree_on_def hm_def using nr by auto
  with rr have rrm: "represents hm ar r" and frm: "footprint hm ar r = footprint h ar r"
    using represents_frame by blast+
  from delete_represents [OF rrm] obtain h' where
    d: "delete ar hm = Some h'"
    and c': "cells h' = (\<lambda>x. if x \<in> footprint hm ar r then None else cells hm x)"
    by blast
  have "ReplaceRight a c h = Some h'"
    by (simp add: ReplaceRight_def ca d [unfolded hm_def])
  moreover have "cells h' = (\<lambda>x. if x \<in> footprint h ar r then None
                        else if x = a then Some (AdditionNode al c i) else cells h x)"
    unfolding c' frm by (auto simp: hm_def)
  ultimately show ?thesis using ca by blast
qed

lemma ReplaceLeft_frame:
  assumes "represents h a (BinaryAdditionExpr l r i)"
  shows "\<exists>h'. ReplaceLeft a c h = Some h'
    \<and> (\<forall>x. x \<notin> footprint h a (BinaryAdditionExpr l r i) \<longrightarrow> cells h' x = cells h x)"
proof -
  from ReplaceLeft_cells [OF assms, of c] obtain al ar h' where
    ca: "cells h a = Some (AdditionNode al ar i)" and rp: "ReplaceLeft a c h = Some h'"
    and c': "cells h' = (\<lambda>x. if x \<in> footprint h al l then None
                        else if x = a then Some (AdditionNode c ar i) else cells h x)"
    by blast
  have "\<forall>x. x \<notin> footprint h a (BinaryAdditionExpr l r i) \<longrightarrow> cells h' x = cells h x"
    unfolding footprint_Add [OF ca] c' by simp
  with rp show ?thesis by blast
qed

lemma ReplaceRight_frame:
  assumes "represents h a (BinaryAdditionExpr l r i)"
  shows "\<exists>h'. ReplaceRight a c h = Some h'
    \<and> (\<forall>x. x \<notin> footprint h a (BinaryAdditionExpr l r i) \<longrightarrow> cells h' x = cells h x)"
proof -
  from ReplaceRight_cells [OF assms, of c] obtain al ar h' where
    ca: "cells h a = Some (AdditionNode al ar i)" and rp: "ReplaceRight a c h = Some h'"
    and c': "cells h' = (\<lambda>x. if x \<in> footprint h ar r then None
                        else if x = a then Some (AdditionNode al c i) else cells h x)"
    by blast
  have "\<forall>x. x \<notin> footprint h a (BinaryAdditionExpr l r i) \<longrightarrow> cells h' x = cells h x"
    unfolding footprint_Add [OF ca] c' by simp
  with rp show ?thesis by blast
qed

lemma ReplaceLeft_effect:
  assumes ra: "represents h a (BinaryAdditionExpr l r i)"
    and rc: "represents h c s"
    and dj: "footprint h c s \<inter> footprint h a (BinaryAdditionExpr l r i) = {}"
  shows "\<exists>h'. ReplaceLeft a c h = Some h' \<and> represents h' a (BinaryAdditionExpr s r i)"
proof -
  from ra obtain al ar where
    ca: "cells h a = Some (AdditionNode al ar i)"
    and rr: "represents h ar r"
    and nl: "a \<notin> footprint h al l" and nr: "a \<notin> footprint h ar r"
    and dlr: "footprint h al l \<inter> footprint h ar r = {}"
    by (rule represents_Add_cases)
  from ReplaceLeft_cells [OF ra, of c] ca obtain h' where
    rp: "ReplaceLeft a c h = Some h'"
    and c': "cells h' = (\<lambda>x. if x \<in> footprint h al l then None
                        else if x = a then Some (AdditionNode c ar i) else cells h x)"
    by auto
  note fa = footprint_Add [OF ca, of l r i]
  have "agree_on (footprint h c s) h h'"
    unfolding agree_on_def c' using dj fa by auto
  with rc have rc': "represents h' c s" and fc': "footprint h' c s = footprint h c s"
    using represents_frame by blast+
  have "agree_on (footprint h ar r) h h'"
    unfolding agree_on_def c' using dlr nr by auto
  with rr have rr': "represents h' ar r" and fr': "footprint h' ar r = footprint h ar r"
    using represents_frame by blast+
  have ca': "cells h' a = Some (AdditionNode c ar i)"
    unfolding c' using nl by simp
  have "represents h' a (BinaryAdditionExpr s r i)"
  proof (rule represents_Add_intro [OF ca' rc' rr'])
    show "a \<notin> footprint h' c s" unfolding fc' using dj fa by auto
    show "a \<notin> footprint h' ar r" unfolding fr' by (rule nr)
    show "footprint h' c s \<inter> footprint h' ar r = {}" unfolding fc' fr' using dj fa by auto
  qed
  with rp show ?thesis by blast
qed

section \<open>Evaluation\<close>

text \<open>
  C4, as amended. For a tree without \<open>AnyNumber\<close>, \<open>Evaluate\<close> returns the sum of all
  numeric leaf values reduced modulo \<open>2 ^ 64\<close>, which is the exact sum whenever that sum is
  below \<open>2 ^ 64\<close>; an addition node evaluates to the \<^verbatim>\<open>std::size_t\<close> sum of its evaluated
  children and a numeric node holding a value evaluates to that value.
\<close>

theorem Evaluate_sum_mod:
  "\<not> has_AnyNumber t \<Longrightarrow>
     map_sum id unat (Evaluate t) = Inr (leaf_sum t mod 2 ^ 64)
     \<and> (leaf_sum t < 2 ^ 64 \<longrightarrow> map_sum id unat (Evaluate t) = Inr (leaf_sum t))
     \<and> (\<forall>l r i. t = BinaryAdditionExpr l r i \<longrightarrow>
           (\<exists>a b. Evaluate l = Inr a \<and> Evaluate r = Inr b \<and> Evaluate t = Inr (a + b)))
     \<and> (\<forall>n i. t = NumericConstantExpr (Value n) i \<longrightarrow> Evaluate t = Inr n)"
proof (intro conjI allI impI)
  assume t: "\<not> has_AnyNumber t"
  then show m: "map_sum id unat (Evaluate t) = Inr (leaf_sum t mod 2 ^ 64)"
    by (simp add: Evaluate_word_of_nat unat_of_nat)
  show "map_sum id unat (Evaluate t) = Inr (leaf_sum t)" if "leaf_sum t < 2 ^ 64"
    using m that by simp
  show "\<exists>a b. Evaluate l = Inr a \<and> Evaluate r = Inr b \<and> Evaluate t = Inr (a + b)"
    if "t = BinaryAdditionExpr l r i" for l r i
  proof -
    from t that have "\<not> has_AnyNumber l" "\<not> has_AnyNumber r" by simp_all
    then obtain a b where "Evaluate l = Inr a" "Evaluate r = Inr b"
      using Evaluate_concrete by blast
    with that show ?thesis by simp
  qed
  show "Evaluate t = Inr n" if "t = NumericConstantExpr (Value n) i" for n i
    using that by simp
qed

theorem Evaluate_sum_mod_witness:
  "\<not> has_AnyNumber (BinaryAdditionExpr (NumericConstantExpr (Value 2) '''')
                        (NumericConstantExpr (Value 3) '''') '''')
   \<and> leaf_sum (BinaryAdditionExpr (NumericConstantExpr (Value 2) '''')
                  (NumericConstantExpr (Value 3) '''') '''') < 2 ^ 64
   \<and> map_sum id unat (Evaluate (BinaryAdditionExpr (NumericConstantExpr (Value 2) '''')
                        (NumericConstantExpr (Value 3) '''') ''''))
       = Inr (leaf_sum (BinaryAdditionExpr (NumericConstantExpr (Value 2) '''')
                          (NumericConstantExpr (Value 3) '''') ''''))
   \<and> leaf_sum (BinaryAdditionExpr (NumericConstantExpr (Value 2) '''')
                  (NumericConstantExpr (Value 3) '''') '''') = 5
   \<and> (\<exists>a b. Evaluate (NumericConstantExpr (Value 2) '''') = Inr a
          \<and> Evaluate (NumericConstantExpr (Value 3) '''') = Inr b
          \<and> Evaluate (BinaryAdditionExpr (NumericConstantExpr (Value 2) '''')
                        (NumericConstantExpr (Value 3) '''') '''') = Inr (a + b))"
proof -
  let ?t = "BinaryAdditionExpr (NumericConstantExpr (Value 2) '''')
              (NumericConstantExpr (Value 3) '''') ''''"
  have h: "\<not> has_AnyNumber ?t" by simp
  have s: "leaf_sum ?t = 5" by simp
  then have b: "leaf_sum ?t < 2 ^ 64" by simp
  note inst = Evaluate_sum_mod [OF h]
  have e: "map_sum id unat (Evaluate ?t) = Inr (leaf_sum ?t)"
    by (rule mp [OF conjunct1 [OF conjunct2 [OF inst]] b])
  have n: "\<exists>a b. Evaluate (NumericConstantExpr (Value 2) '''') = Inr a
          \<and> Evaluate (NumericConstantExpr (Value 3) '''') = Inr b
          \<and> Evaluate ?t = Inr (a + b)"
    by (rule mp [OF spec [OF spec [OF spec
          [OF conjunct1 [OF conjunct2 [OF conjunct2 [OF inst]]]]]] refl])
  show ?thesis
    by (intro conjI h b e s n)
qed

text \<open>
  C4 as stated fails: \<open>(2 ^ 64 - 1) + 1\<close> has no wildcard, its leaves sum to \<open>2 ^ 64\<close>, and
  \<open>Evaluate\<close> returns \<open>0\<close>.
\<close>

theorem Evaluate_exact_sum_counterexample:
  "\<not> has_AnyNumber (BinaryAdditionExpr (NumericConstantExpr (Value 18446744073709551615) '''')
                        (NumericConstantExpr (Value 1) '''') '''')
   \<and> map_sum id unat (Evaluate (BinaryAdditionExpr (NumericConstantExpr (Value 18446744073709551615) '''')
                        (NumericConstantExpr (Value 1) '''') ''''))
       \<noteq> Inr (leaf_sum (BinaryAdditionExpr (NumericConstantExpr (Value 18446744073709551615) '''')
                        (NumericConstantExpr (Value 1) '''') ''''))
   \<and> Evaluate (BinaryAdditionExpr (NumericConstantExpr (Value 18446744073709551615) '''')
                        (NumericConstantExpr (Value 1) '''') '''') = Inr 0
   \<and> leaf_sum (BinaryAdditionExpr (NumericConstantExpr (Value 18446744073709551615) '''')
                        (NumericConstantExpr (Value 1) '''') '''') = 18446744073709551616"
  by simp

text \<open>
  C5. \<open>Evaluate\<close> stops with the failed assertion when the tree holds \<open>AnyNumber\<close> at any
  numeric node, and returns a value on every tree that holds none.
\<close>

theorem Evaluate_aborts_iff_wildcard:
  "(has_AnyNumber t \<longrightarrow> Evaluate t = Inl AssertionFailed)
   \<and> (\<not> has_AnyNumber t \<longrightarrow> (\<exists>n. Evaluate t = Inr n))"
  using Evaluate_concrete Evaluate_wildcard by blast

theorem Evaluate_aborts_iff_wildcard_witness:
  "(has_AnyNumber (BinaryAdditionExpr (NumericConstantExpr (Value 1) '''')
       (BinaryAdditionExpr (NumericConstantExpr AnyNumber ''x'') (NumericConstantExpr (Value 2) '''') '''') '''')
    \<and> Evaluate (BinaryAdditionExpr (NumericConstantExpr (Value 1) '''')
       (BinaryAdditionExpr (NumericConstantExpr AnyNumber ''x'') (NumericConstantExpr (Value 2) '''') '''') '''')
       = Inl AssertionFailed)
   \<and> (\<not> has_AnyNumber (BinaryAdditionExpr (NumericConstantExpr (Value 1) '''')
           (NumericConstantExpr (Value 2) '''') '''')
      \<and> (\<exists>n. Evaluate (BinaryAdditionExpr (NumericConstantExpr (Value 1) '''')
           (NumericConstantExpr (Value 2) '''') '''') = Inr n))"
proof -
  let ?w = "BinaryAdditionExpr (NumericConstantExpr (Value 1) '''')
       (BinaryAdditionExpr (NumericConstantExpr AnyNumber ''x'') (NumericConstantExpr (Value 2) '''') '''') ''''"
  let ?c = "BinaryAdditionExpr (NumericConstantExpr (Value 1) '''') (NumericConstantExpr (Value 2) '''') ''''"
  have hw: "has_AnyNumber ?w" by simp
  have hc: "\<not> has_AnyNumber ?c" by simp
  have w: "Evaluate ?w = Inl AssertionFailed"
    by (rule mp [OF conjunct1 [OF Evaluate_aborts_iff_wildcard] hw])
  have c: "\<exists>n. Evaluate ?c = Inr n"
    by (rule mp [OF conjunct2 [OF Evaluate_aborts_iff_wildcard] hc])
  show ?thesis
    by (intro conjI hw w hc c)
qed

section \<open>Matching\<close>

text \<open>
  C3. \<open>Match\<close> is false on nodes of different discriminants; on two additions it is the
  conjunction of the match of the left children and the match of the right children; on two
  numerics it holds exactly when one side is \<open>AnyNumber\<close> or both hold the same value; and
  two pairs of trees that differ only in their binding names get the same answer.
\<close>

theorem Match_characterisation:
  "(Type p \<noteq> Type q \<longrightarrow> \<not> Match p q)
   \<and> Match (BinaryAdditionExpr pl pr pi) (BinaryAdditionExpr ql qr qi) = (Match pl ql \<and> Match pr qr)
   \<and> Match (NumericConstantExpr v0 pi) (NumericConstantExpr v1 qi) =
       (v0 = AnyNumber \<or> v1 = AnyNumber \<or> (\<exists>a. v0 = Value a \<and> v1 = Value a))
   \<and> (erase_ids p = erase_ids p' \<and> erase_ids q = erase_ids q' \<longrightarrow> Match p q = Match p' q')"
proof (intro conjI impI)
  assume "Type p \<noteq> Type q"
  then show "\<not> Match p q" using Match_Type by blast
next
  show "Match (BinaryAdditionExpr pl pr pi) (BinaryAdditionExpr ql qr qi) = (Match pl ql \<and> Match pr qr)"
    by simp
next
  show "Match (NumericConstantExpr v0 pi) (NumericConstantExpr v1 qi) =
       (v0 = AnyNumber \<or> v1 = AnyNumber \<or> (\<exists>a. v0 = Value a \<and> v1 = Value a))"
    by (simp only: Match_Num_Num Numeric_match_iff)
next
  assume "erase_ids p = erase_ids p' \<and> erase_ids q = erase_ids q'"
  then show "Match p q = Match p' q'"
    by (metis Match_erase_ids)
qed

theorem Match_characterisation_witness:
  "(Type (NumericConstantExpr AnyNumber ''x'')
      \<noteq> Type (BinaryAdditionExpr (NumericConstantExpr (Value 0) '''') (NumericConstantExpr (Value 1) '''') '''')
    \<and> \<not> Match (NumericConstantExpr AnyNumber ''x'')
          (BinaryAdditionExpr (NumericConstantExpr (Value 0) '''') (NumericConstantExpr (Value 1) '''') ''''))
   \<and> ((erase_ids (BinaryAdditionExpr (NumericConstantExpr (Value 0) '''') (NumericConstantExpr AnyNumber ''right'') '''')
         = erase_ids (BinaryAdditionExpr (NumericConstantExpr (Value 0) ''a'') (NumericConstantExpr AnyNumber ''b'') ''c'')
       \<and> erase_ids (BinaryAdditionExpr (NumericConstantExpr (Value 0) '''') (NumericConstantExpr (Value 7) '''') '''')
         = erase_ids (BinaryAdditionExpr (NumericConstantExpr (Value 0) ''u'') (NumericConstantExpr (Value 7) ''v'') ''w''))
    \<and> Match (BinaryAdditionExpr (NumericConstantExpr (Value 0) '''') (NumericConstantExpr AnyNumber ''right'') '''')
            (BinaryAdditionExpr (NumericConstantExpr (Value 0) '''') (NumericConstantExpr (Value 7) '''') '''')
       = Match (BinaryAdditionExpr (NumericConstantExpr (Value 0) ''a'') (NumericConstantExpr AnyNumber ''b'') ''c'')
               (BinaryAdditionExpr (NumericConstantExpr (Value 0) ''u'') (NumericConstantExpr (Value 7) ''v'') ''w''))"
proof -
  let ?x = "NumericConstantExpr AnyNumber ''x''"
  let ?y = "BinaryAdditionExpr (NumericConstantExpr (Value 0) '''') (NumericConstantExpr (Value 1) '''') ''''"
  let ?p = "BinaryAdditionExpr (NumericConstantExpr (Value 0) '''') (NumericConstantExpr AnyNumber ''right'') ''''"
  let ?q = "BinaryAdditionExpr (NumericConstantExpr (Value 0) '''') (NumericConstantExpr (Value 7) '''') ''''"
  let ?p' = "BinaryAdditionExpr (NumericConstantExpr (Value 0) ''a'') (NumericConstantExpr AnyNumber ''b'') ''c''"
  let ?q' = "BinaryAdditionExpr (NumericConstantExpr (Value 0) ''u'') (NumericConstantExpr (Value 7) ''v'') ''w''"
  have h1: "Type ?x \<noteq> Type ?y" by simp
  have c1: "\<not> Match ?x ?y"
    by (rule mp [OF conjunct1 [OF Match_characterisation [where p = ?x and q = ?y]] h1])
  have h2: "erase_ids ?p = erase_ids ?p' \<and> erase_ids ?q = erase_ids ?q'" by simp
  have c2: "Match ?p ?q = Match ?p' ?q'"
    by (rule mp [OF conjunct2 [OF conjunct2 [OF conjunct2
          [OF Match_characterisation [where p = ?p and q = ?q and p' = ?p' and q' = ?q']]]] h2])
  show ?thesis
    by (intro conjI h1 c1 h2 c2)
qed

text \<open>C8. \<open>Match\<close> is symmetric in its two arguments.\<close>

theorem Match_symmetric: "Match a b = Match b a"
proof (induction a arbitrary: b)
  case (NumericConstantExpr v i)
  show ?case
  proof (cases b)
    case (NumericConstantExpr w j)
    then show ?thesis by (cases v; cases w) auto
  qed simp
next
  case (BinaryAdditionExpr l r i)
  then show ?case by (cases b) simp_all
qed

text \<open>
  C6. When \<open>Match p q\<close> holds, the flattened binding names of \<open>p\<close> and the flattened nodes
  of \<open>q\<close> have the same length, the two trees have the same positions in the same
  post-order, no position is listed twice, and at every index the node of the query
  sequence is the node of \<open>q\<close> at the position where \<open>p\<close> carries the name of the name
  sequence.
\<close>

theorem Match_positional_correspondence:
  assumes "Match p q"
  shows "length (FlattenIdentifiersTo p []) = length (FlattenExpressionsTo q [])
    \<and> FlattenPositions p = FlattenPositions q
    \<and> distinct (FlattenPositions q)
    \<and> (\<forall>k < length (FlattenExpressionsTo q []).
          node_at q (FlattenPositions q ! k) = Some (FlattenExpressionsTo q [] ! k)
          \<and> map_option Id (node_at p (FlattenPositions q ! k)) = Some (FlattenIdentifiersTo p [] ! k))"
proof -
  have pos: "FlattenPositions p = FlattenPositions q"
    using assms by (rule Match_FlattenPositions)
  have len: "length (FlattenIdentifiersTo p []) = length (FlattenExpressionsTo q [])"
    by (simp add: length_FlattenExpressionsTo length_FlattenIdentifiersTo pos)
  have nth: "node_at q (FlattenPositions q ! k) = Some (FlattenExpressionsTo q [] ! k)
      \<and> map_option Id (node_at p (FlattenPositions q ! k)) = Some (FlattenIdentifiersTo p [] ! k)"
    if k: "k < length (FlattenExpressionsTo q [])" for k
  proof
    from k have kq: "k < length (FlattenPositions q)"
      by (simp add: length_FlattenExpressionsTo)
    have "map (node_at q) (FlattenPositions q) ! k = map Some (FlattenExpressionsTo q []) ! k"
      by (simp only: node_at_FlattenPositions)
    with k kq show "node_at q (FlattenPositions q ! k) = Some (FlattenExpressionsTo q [] ! k)"
      by simp
    from k len have kp: "k < length (FlattenIdentifiersTo p [])" by simp
    have "map (\<lambda>pos. map_option Id (node_at p pos)) (FlattenPositions p) ! k
        = map Some (FlattenIdentifiersTo p []) ! k"
      by (simp only: Id_at_FlattenPositions)
    with kp kq pos show "map_option Id (node_at p (FlattenPositions q ! k)) = Some (FlattenIdentifiersTo p [] ! k)"
      by simp
  qed
  from pos len nth show ?thesis
    by (simp add: distinct_FlattenPositions)
qed

theorem Match_positional_correspondence_witness:
  "Match (InputPattern TransformBinaryAdditionWithZeroOnLeft)
     (BinaryAdditionExpr (NumericConstantExpr (Value 0) '''') (NumericConstantExpr (Value 7) '''') '''')
   \<and> length (FlattenIdentifiersTo (InputPattern TransformBinaryAdditionWithZeroOnLeft) [])
       = length (FlattenExpressionsTo
           (BinaryAdditionExpr (NumericConstantExpr (Value 0) '''') (NumericConstantExpr (Value 7) '''') '''') [])
   \<and> (1::nat) < length (FlattenExpressionsTo
           (BinaryAdditionExpr (NumericConstantExpr (Value 0) '''') (NumericConstantExpr (Value 7) '''') '''') [])
   \<and> node_at (BinaryAdditionExpr (NumericConstantExpr (Value 0) '''') (NumericConstantExpr (Value 7) '''') '''')
         (FlattenPositions
            (BinaryAdditionExpr (NumericConstantExpr (Value 0) '''') (NumericConstantExpr (Value 7) '''') '''') ! 1)
       = Some (FlattenExpressionsTo
            (BinaryAdditionExpr (NumericConstantExpr (Value 0) '''') (NumericConstantExpr (Value 7) '''') '''') [] ! 1)
   \<and> map_option Id (node_at (InputPattern TransformBinaryAdditionWithZeroOnLeft)
         (FlattenPositions
            (BinaryAdditionExpr (NumericConstantExpr (Value 0) '''') (NumericConstantExpr (Value 7) '''') '''') ! 1))
       = Some (FlattenIdentifiersTo (InputPattern TransformBinaryAdditionWithZeroOnLeft) [] ! 1)
   \<and> FlattenIdentifiersTo (InputPattern TransformBinaryAdditionWithZeroOnLeft) [] ! 1 = ''right''
   \<and> FlattenExpressionsTo
        (BinaryAdditionExpr (NumericConstantExpr (Value 0) '''') (NumericConstantExpr (Value 7) '''') '''') [] ! 1
       = NumericConstantExpr (Value 7) ''''
   \<and> FlattenPositions
        (BinaryAdditionExpr (NumericConstantExpr (Value 0) '''') (NumericConstantExpr (Value 7) '''') '''') ! 1
       = [GoRight]"
proof -
  let ?p = "InputPattern TransformBinaryAdditionWithZeroOnLeft"
  let ?q = "BinaryAdditionExpr (NumericConstantExpr (Value 0) '''') (NumericConstantExpr (Value 7) '''') ''''"
  have h: "Match ?p ?q" by simp
  note inst = Match_positional_correspondence [OF h]
  have len: "length (FlattenIdentifiersTo ?p []) = length (FlattenExpressionsTo ?q [])"
    by (rule conjunct1 [OF inst])
  have k: "(1::nat) < length (FlattenExpressionsTo ?q [])" by simp
  have both: "node_at ?q (FlattenPositions ?q ! 1) = Some (FlattenExpressionsTo ?q [] ! 1)
      \<and> map_option Id (node_at ?p (FlattenPositions ?q ! 1)) = Some (FlattenIdentifiersTo ?p [] ! 1)"
    by (rule mp [OF spec [OF conjunct2 [OF conjunct2 [OF conjunct2 [OF inst]]]] k])
  have ids: "FlattenIdentifiersTo ?p [] ! 1 = ''right''" by simp
  have exprs: "FlattenExpressionsTo ?q [] ! 1 = NumericConstantExpr (Value 7) ''''" by simp
  have pos: "FlattenPositions ?q ! 1 = [GoRight]" by simp
  show ?thesis
    by (intro conjI h len k conjunct1 [OF both] conjunct2 [OF both] ids exprs pos)
qed

section \<open>Optimization\<close>

text \<open>
  C1. For every tree \<open>t\<close> without \<open>AnyNumber\<close>, \<open>Optimize t\<close> returns a tree, and evaluating
  that tree gives the result of evaluating \<open>t\<close>.
\<close>

theorem Optimize_preserves_Evaluate:
  "\<not> has_AnyNumber t \<Longrightarrow> \<exists>t'. Optimize t = Inr t' \<and> eval t' = eval t"
proof -
  assume t: "\<not> has_AnyNumber t"
  from pass_Left [OF t] obtain t1 where
    t1: "ApplyTransform TransformBinaryAdditionWithZeroOnLeft t = Inr t1"
        "\<not> has_AnyNumber t1" "Evaluate t1 = Evaluate t"
    by blast
  from pass_Right [OF t1(2)] obtain t2 where
    t2: "ApplyTransform TransformBinaryAdditionWithZeroOnRight t1 = Inr t2"
        "Evaluate t2 = Evaluate t1"
    by blast
  show ?thesis
    by (simp add: Optimize_def eval_def t1 t2)
qed

theorem Optimize_preserves_Evaluate_witness:
  "\<not> has_AnyNumber
       (BinaryAdditionExpr
          (BinaryAdditionExpr (NumericConstantExpr (Value 0) '''') (NumericConstantExpr (Value 5) '''') '''')
          (BinaryAdditionExpr (NumericConstantExpr (Value 7) '''') (NumericConstantExpr (Value 0) '''') '''') '''')
   \<and> (\<exists>t'. Optimize
       (BinaryAdditionExpr
          (BinaryAdditionExpr (NumericConstantExpr (Value 0) '''') (NumericConstantExpr (Value 5) '''') '''')
          (BinaryAdditionExpr (NumericConstantExpr (Value 7) '''') (NumericConstantExpr (Value 0) '''') '''') '''')
         = Inr t'
       \<and> eval t' = eval
       (BinaryAdditionExpr
          (BinaryAdditionExpr (NumericConstantExpr (Value 0) '''') (NumericConstantExpr (Value 5) '''') '''')
          (BinaryAdditionExpr (NumericConstantExpr (Value 7) '''') (NumericConstantExpr (Value 0) '''') '''') ''''))
   \<and> Optimize
       (BinaryAdditionExpr
          (BinaryAdditionExpr (NumericConstantExpr (Value 0) '''') (NumericConstantExpr (Value 5) '''') '''')
          (BinaryAdditionExpr (NumericConstantExpr (Value 7) '''') (NumericConstantExpr (Value 0) '''') '''') '''')
       = Inr (BinaryAdditionExpr (NumericConstantExpr (Value 5) '''') (NumericConstantExpr (Value 7) '''') '''')"
proof -
  let ?t = "BinaryAdditionExpr
          (BinaryAdditionExpr (NumericConstantExpr (Value 0) '''') (NumericConstantExpr (Value 5) '''') '''')
          (BinaryAdditionExpr (NumericConstantExpr (Value 7) '''') (NumericConstantExpr (Value 0) '''') '''') ''''"
  have h: "\<not> has_AnyNumber ?t" by simp
  have o: "Optimize ?t =
      Inr (BinaryAdditionExpr (NumericConstantExpr (Value 5) '''') (NumericConstantExpr (Value 7) '''') '''')"
    by (simp add: Optimize_def ApplyTransformAt_Left ApplyTransformAt_Right Make_defs)
  show ?thesis
    by (rule conjI [OF h conjI [OF Optimize_preserves_Evaluate [OF h] o]])
qed

text \<open>
  C2. For every value \<open>N\<close> (and whatever the binding names of the three nodes),
  \<open>Optimize\<close> of \<open>0 + N\<close> returns the single unnamed numeric leaf \<open>N\<close>, and \<open>Optimize\<close> of
  \<open>N + 0\<close> returns a tree, the same leaf, that evaluates to \<open>N\<close>.
\<close>

theorem Optimize_zero_rules:
  "Optimize (BinaryAdditionExpr (NumericConstantExpr (Value 0) i) (NumericConstantExpr (Value N) j) k)
     = Inr (NumericConstantExpr (Value N) '''')
   \<and> (\<exists>t'. Optimize (BinaryAdditionExpr (NumericConstantExpr (Value N) i) (NumericConstantExpr (Value 0) j) k)
         = Inr t' \<and> eval t' = Inr N \<and> t' = NumericConstantExpr (Value N) '''')"
  by (simp add: Optimize_def eval_def ApplyTransformAt_Left ApplyTransformAt_Right Make_defs)

text \<open>
  C10. \<open>Optimize\<close> of a single numeric leaf holding a value returns the same leaf, with the
  same value and the same binding name.
\<close>

theorem Optimize_leaf:
  "Optimize (NumericConstantExpr (Value v) i) = Inr (NumericConstantExpr (Value v) i)"
  by (simp add: Optimize_def)

text \<open>
  C9. For every tree \<open>t\<close> without \<open>AnyNumber\<close>, \<open>Optimize t\<close> returns a tree in which every
  addition node carries the empty binding name, whatever the names of the additions of \<open>t\<close>;
  a node of the result with a non-empty name is a numeric leaf that occurs, with that name,
  in \<open>t\<close>; and a pass over a numeric leaf returns the leaf with its name.
\<close>

theorem Optimize_binding_names:
  "\<not> has_AnyNumber t \<Longrightarrow>
     (\<exists>t'. Optimize t = Inr t'
        \<and> (\<forall>n \<in> set (FlattenExpressionsTo t' []).
              (Type n = BINARY_ADDITION \<longrightarrow> Id n = '''')
              \<and> (Id n \<noteq> '''' \<longrightarrow> Type n = NUMERIC_CONSTANT \<and> n \<in> set (FlattenExpressionsTo t []))))
     \<and> ApplyTransform transform (NumericConstantExpr v i) = Inr (NumericConstantExpr v i)"
proof -
  obtain t1 where t1: "ApplyTransform TransformBinaryAdditionWithZeroOnLeft t = Inr t1" "ids_kept t t1"
    using pass_Left_ids by blast
  obtain t2 where t2: "ApplyTransform TransformBinaryAdditionWithZeroOnRight t1 = Inr t2" "ids_kept t1 t2"
    using pass_Right_ids by blast
  have "Optimize t = Inr t2"
    by (simp add: Optimize_def t1 t2)
  moreover have "ids_kept t t2"
    using t1(2) t2(2) by (rule ids_kept_trans)
  ultimately show ?thesis
    by (simp add: ids_kept_def)
qed

theorem Optimize_binding_names_witness:
  "\<not> has_AnyNumber (BinaryAdditionExpr (NumericConstantExpr (Value 1) ''a'') (NumericConstantExpr (Value 2) ''b'') ''c'')
   \<and> Optimize (BinaryAdditionExpr (NumericConstantExpr (Value 1) ''a'') (NumericConstantExpr (Value 2) ''b'') ''c'')
       = Inr (BinaryAdditionExpr (NumericConstantExpr (Value 1) ''a'') (NumericConstantExpr (Value 2) ''b'') '''')
   \<and> Type (BinaryAdditionExpr (NumericConstantExpr (Value 1) ''a'') (NumericConstantExpr (Value 2) ''b'') '''')
       = BINARY_ADDITION
   \<and> Id (BinaryAdditionExpr (NumericConstantExpr (Value 1) ''a'') (NumericConstantExpr (Value 2) ''b'') '''') = ''''
   \<and> Id (NumericConstantExpr (Value 1) ''a'') \<noteq> ''''
   \<and> NumericConstantExpr (Value 1) ''a''
       \<in> set (FlattenExpressionsTo
           (BinaryAdditionExpr (NumericConstantExpr (Value 1) ''a'') (NumericConstantExpr (Value 2) ''b'') ''c'') [])
   \<and> ApplyTransform TransformBinaryAdditionWithZeroOnLeft (NumericConstantExpr (Value 1) ''a'')
       = Inr (NumericConstantExpr (Value 1) ''a'')"
proof -
  let ?t = "BinaryAdditionExpr (NumericConstantExpr (Value 1) ''a'') (NumericConstantExpr (Value 2) ''b'') ''c''"
  let ?t' = "BinaryAdditionExpr (NumericConstantExpr (Value 1) ''a'') (NumericConstantExpr (Value 2) ''b'') ''''"
  let ?a = "NumericConstantExpr (Value 1) ''a''"
  have h: "\<not> has_AnyNumber ?t" by simp
  have o: "Optimize ?t = Inr ?t'"
    by (simp add: Optimize_def Make_defs)
  note inst = Optimize_binding_names
      [OF h, where transform = TransformBinaryAdditionWithZeroOnLeft and v = "Value 1" and i = "''a''"]
  from conjunct1 [OF inst] obtain u where u: "Optimize ?t = Inr u"
    and every: "\<forall>n \<in> set (FlattenExpressionsTo u []).
        (Type n = BINARY_ADDITION \<longrightarrow> Id n = '''')
        \<and> (Id n \<noteq> '''' \<longrightarrow> Type n = NUMERIC_CONSTANT \<and> n \<in> set (FlattenExpressionsTo ?t []))"
    by blast
  from u o have uu: "u = ?t'" by simp
  have root: "?t' \<in> set (FlattenExpressionsTo u [])" by (simp add: uu)
  have leaf: "?a \<in> set (FlattenExpressionsTo u [])" by (simp add: uu)
  have ty: "Type ?t' = BINARY_ADDITION" by simp
  have named: "Id ?a \<noteq> ''''" by simp
  have c1: "Id ?t' = ''''"
    by (rule mp [OF conjunct1 [OF bspec [OF every root]] ty])
  have c2: "?a \<in> set (FlattenExpressionsTo ?t [])"
    by (rule conjunct2 [OF mp [OF conjunct2 [OF bspec [OF every leaf]] named]])
  show ?thesis
    by (intro conjI h o ty c1 named c2 conjunct2 [OF inst])
qed

section \<open>Cloning\<close>

text \<open>
  C7. In a store where \<open>a\<close> is the root of a tree \<open>t\<close>, \<open>Clone\<close> returns the root \<open>a'\<close> of a
  tree with the structure, values and names of \<open>t\<close>, built only from new objects, so that the
  two trees share no object and the original is as it was; both evaluate to the result of
  \<open>t\<close>. After that, and after any changes to the store outside the two trees, replacing the
  left or the right child of the clone by any pointer \<open>c\<close> returns, leaves \<open>t\<close> at \<open>a\<close> and
  leaves its evaluated result; when \<open>c\<close> is the root of a tree \<open>s\<close> apart from both, the
  clone becomes \<open>s + r\<close>.
\<close>

theorem Clone_heap_independent:
  assumes "wf_heap h" and "represents h a t"
  shows "\<exists>a' h'. Clone_heap a h = Some (a', h')
     \<and> wf_heap h'
     \<and> represents h' a' (Clone t)
     \<and> represents h' a' t \<and> represents h' a t
     \<and> footprint h' a' t \<inter> footprint h' a t = {}
     \<and> footprint h' a' t \<inter> dom (cells h) = {}
     \<and> Evaluate_heap a h = Some (Evaluate t)
     \<and> Evaluate_heap a' h' = Some (Evaluate t)
     \<and> Evaluate_heap a h' = Some (Evaluate t)
     \<and> (\<forall>l r i c h2.
           t = BinaryAdditionExpr l r i
           \<and> agree_on (footprint h' a' t \<union> footprint h' a t) h' h2 \<longrightarrow>
           (\<exists>h3. ReplaceLeft a' c h2 = Some h3
              \<and> represents h3 a t \<and> Evaluate_heap a h3 = Some (Evaluate t)
              \<and> (\<forall>s. represents h2 c s
                      \<and> footprint h2 c s \<inter> (footprint h' a' t \<union> footprint h' a t) = {} \<longrightarrow>
                    represents h3 a' (BinaryAdditionExpr s r i)))
           \<and> (\<exists>h3. ReplaceRight a' c h2 = Some h3
              \<and> represents h3 a t \<and> Evaluate_heap a h3 = Some (Evaluate t)))"
proof -
  from Clone_heap_represents [OF assms] obtain a' h' where
    clone: "Clone_heap a h = Some (a', h')" and wf': "wf_heap h'"
    and old: "\<And>x. x < next_free h \<Longrightarrow> cells h' x = cells h x"
    and rc: "represents h' a' t"
    and fc: "footprint h' a' t \<subseteq> {next_free h ..< next_free h'}"
    by blast
  have below: "\<And>x. x \<in> footprint h a t \<Longrightarrow> x < next_free h"
    using footprint_below [OF assms] .
  have "agree_on (footprint h a t) h h'"
    unfolding agree_on_def using below old by blast
  with assms(2) have ro: "represents h' a t" and fo: "footprint h' a t = footprint h a t"
    using represents_frame by blast+
  have dj: "footprint h' a' t \<inter> footprint h' a t = {}"
    unfolding fo using fc below by fastforce
  have "x \<notin> dom (cells h)" if "x \<in> footprint h' a' t" for x
  proof
    assume "x \<in> dom (cells h)"
    with assms(1) have "x < next_free h" unfolding wf_heap_def by blast
    moreover from that fc have "next_free h \<le> x" by auto
    ultimately show False by simp
  qed
  then have fresh: "footprint h' a' t \<inter> dom (cells h) = {}"
    by blast
  have mutate:
    "(\<exists>h3. ReplaceLeft a' c h2 = Some h3
        \<and> represents h3 a t \<and> Evaluate_heap a h3 = Some (Evaluate t)
        \<and> (\<forall>s. represents h2 c s
                \<and> footprint h2 c s \<inter> (footprint h' a' t \<union> footprint h' a t) = {} \<longrightarrow>
              represents h3 a' (BinaryAdditionExpr s r i)))
     \<and> (\<exists>h3. ReplaceRight a' c h2 = Some h3
        \<and> represents h3 a t \<and> Evaluate_heap a h3 = Some (Evaluate t))"
    if t: "t = BinaryAdditionExpr l r i"
      and ag: "agree_on (footprint h' a' t \<union> footprint h' a t) h' h2"
    for l r i c h2
  proof -
    from ag have "agree_on (footprint h' a' t) h' h2" "agree_on (footprint h' a t) h' h2"
      unfolding agree_on_def by simp_all
    with rc ro have rc2: "represents h2 a' t" and fc2: "footprint h2 a' t = footprint h' a' t"
      and ro2: "represents h2 a t" and fo2: "footprint h2 a t = footprint h' a t"
      using represents_frame by blast+
    from rc2 have rc2': "represents h2 a' (BinaryAdditionExpr l r i)" by (simp only: t)
    have left: "\<exists>h3. ReplaceLeft a' c h2 = Some h3
        \<and> represents h3 a t \<and> Evaluate_heap a h3 = Some (Evaluate t)
        \<and> (\<forall>s. represents h2 c s
                \<and> footprint h2 c s \<inter> (footprint h' a' t \<union> footprint h' a t) = {} \<longrightarrow>
              represents h3 a' (BinaryAdditionExpr s r i))"
    proof -
      from ReplaceLeft_frame [OF rc2', of c] obtain h3 where
        rp: "ReplaceLeft a' c h2 = Some h3"
        and fr: "\<And>x. x \<notin> footprint h2 a' t \<Longrightarrow> cells h3 x = cells h2 x"
        unfolding t by blast
      have "agree_on (footprint h2 a t) h2 h3"
        unfolding agree_on_def using fr dj fc2 fo2 by blast
      with ro2 have ro3: "represents h3 a t"
        using represents_frame by blast
      have "represents h3 a' (BinaryAdditionExpr s r i)"
        if "represents h2 c s"
          and "footprint h2 c s \<inter> (footprint h' a' t \<union> footprint h' a t) = {}" for s
      proof -
        from that(2) have "footprint h2 c s \<inter> footprint h2 a' (BinaryAdditionExpr l r i) = {}"
          using fc2 unfolding t by blast
        from ReplaceLeft_effect [OF rc2' that(1) this] rp show ?thesis by simp
      qed
      with rp ro3 Evaluate_heap_represents [OF ro3] show ?thesis by blast
    qed
    have right: "\<exists>h3. ReplaceRight a' c h2 = Some h3
        \<and> represents h3 a t \<and> Evaluate_heap a h3 = Some (Evaluate t)"
    proof -
      from ReplaceRight_frame [OF rc2', of c] obtain h3 where
        rp: "ReplaceRight a' c h2 = Some h3"
        and fr: "\<And>x. x \<notin> footprint h2 a' t \<Longrightarrow> cells h3 x = cells h2 x"
        unfolding t by blast
      have "agree_on (footprint h2 a t) h2 h3"
        unfolding agree_on_def using fr dj fc2 fo2 by blast
      with ro2 have ro3: "represents h3 a t"
        using represents_frame by blast
      with rp Evaluate_heap_represents [OF ro3] show ?thesis by blast
    qed
    from left right show ?thesis ..
  qed
  from rc have rcc: "represents h' a' (Clone t)" by simp
  from clone wf' rcc rc ro dj fresh
    Evaluate_heap_represents [OF assms(2)] Evaluate_heap_represents [OF rc]
    Evaluate_heap_represents [OF ro] mutate
  show ?thesis by blast
qed

theorem Clone_heap_independent_witness:
  "wf_heap \<lparr>cells = [0 \<mapsto> NumericNode (Value 1) ''a'', 1 \<mapsto> NumericNode (Value 2) ''b'',
                     2 \<mapsto> AdditionNode 0 1 ''c''], next_free = 3\<rparr>
   \<and> represents \<lparr>cells = [0 \<mapsto> NumericNode (Value 1) ''a'', 1 \<mapsto> NumericNode (Value 2) ''b'',
                     2 \<mapsto> AdditionNode 0 1 ''c''], next_free = 3\<rparr> 2
        (BinaryAdditionExpr (NumericConstantExpr (Value 1) ''a'') (NumericConstantExpr (Value 2) ''b'') ''c'')
   \<and> (\<exists>a' h'.
        Clone_heap 2 \<lparr>cells = [0 \<mapsto> NumericNode (Value 1) ''a'', 1 \<mapsto> NumericNode (Value 2) ''b'',
                     2 \<mapsto> AdditionNode 0 1 ''c''], next_free = 3\<rparr> = Some (a', h')
        \<and> a' = 5
        \<and> represents h' a'
            (BinaryAdditionExpr (NumericConstantExpr (Value 1) ''a'') (NumericConstantExpr (Value 2) ''b'') ''c'')
        \<and> represents h' 2
            (BinaryAdditionExpr (NumericConstantExpr (Value 1) ''a'') (NumericConstantExpr (Value 2) ''b'') ''c'')
        \<and> Evaluate_heap a' h' = Some (Inr 3)
        \<and> (\<exists>h3. ReplaceLeft a' (fst (new (NumericNode (Value 9) '''') h'))
                   (snd (new (NumericNode (Value 9) '''') h')) = Some h3
              \<and> represents h3 2
                  (BinaryAdditionExpr (NumericConstantExpr (Value 1) ''a'') (NumericConstantExpr (Value 2) ''b'') ''c'')
              \<and> Evaluate_heap 2 h3 = Some (Inr 3)
              \<and> represents h3 a'
                  (BinaryAdditionExpr (NumericConstantExpr (Value 9) '''') (NumericConstantExpr (Value 2) ''b'') ''c'')))"
proof -
  let ?h = "\<lparr>cells = [0 \<mapsto> NumericNode (Value 1) ''a'', 1 \<mapsto> NumericNode (Value 2) ''b'',
                     2 \<mapsto> AdditionNode 0 1 ''c''], next_free = 3\<rparr>"
  let ?t = "BinaryAdditionExpr (NumericConstantExpr (Value 1) ''a'') (NumericConstantExpr (Value 2) ''b'') ''c''"
  let ?s = "NumericConstantExpr (Value 9) ''''"
  have wf: "wf_heap ?h" by (simp add: wf_heap_def)
  have rep: "represents ?h 2 ?t" by simp
  have ev: "Evaluate ?t = Inr 3" by simp
  from Clone_heap_independent [OF wf rep] obtain a' h' where
    clone: "Clone_heap 2 ?h = Some (a', h')" and wf': "wf_heap h'"
    and rc: "represents h' a' ?t" and ro: "represents h' 2 ?t"
    and ec: "Evaluate_heap a' h' = Some (Evaluate ?t)"
    and mutate: "\<forall>l r i c h2.
           ?t = BinaryAdditionExpr l r i
           \<and> agree_on (footprint h' a' ?t \<union> footprint h' 2 ?t) h' h2 \<longrightarrow>
           (\<exists>h3. ReplaceLeft a' c h2 = Some h3
              \<and> represents h3 2 ?t \<and> Evaluate_heap 2 h3 = Some (Evaluate ?t)
              \<and> (\<forall>s. represents h2 c s
                      \<and> footprint h2 c s \<inter> (footprint h' a' ?t \<union> footprint h' 2 ?t) = {} \<longrightarrow>
                    represents h3 a' (BinaryAdditionExpr s (NumericConstantExpr (Value 2) ''b'') ''c'')))
           \<and> (\<exists>h3. ReplaceRight a' c h2 = Some h3
              \<and> represents h3 2 ?t \<and> Evaluate_heap 2 h3 = Some (Evaluate ?t))"
    by (elim exE conjE) auto
  have a': "a' = 5"
    using clone by (simp add: Clone_heap.simps new_def)
  define c where "c = fst (new (NumericNode (Value 9) '''') h')"
  define h2 where "h2 = snd (new (NumericNode (Value 9) '''') h')"
  have c: "c = next_free h'" and cells2: "cells h2 = (cells h')(next_free h' \<mapsto> NumericNode (Value 9) '''')"
    by (simp_all add: c_def h2_def new_def)
  have below: "x < next_free h'" if "x \<in> footprint h' a' ?t \<union> footprint h' 2 ?t" for x
    using that footprint_below [OF wf' rc] footprint_below [OF wf' ro] by blast
  have ag: "agree_on (footprint h' a' ?t \<union> footprint h' 2 ?t) h' h2"
    unfolding agree_on_def cells2 using below by fastforce
  have rs: "represents h2 c ?s"
    by (simp add: c cells2)
  have ds: "footprint h2 c ?s \<inter> (footprint h' a' ?t \<union> footprint h' 2 ?t) = {}"
    using below by (fastforce simp: c)
  from mutate [rule_format, of _ _ _ h2 c, OF conjI [OF refl ag]] obtain h3 where
    rp: "ReplaceLeft a' c h2 = Some h3"
    and ro3: "represents h3 2 ?t" and eo3: "Evaluate_heap 2 h3 = Some (Evaluate ?t)"
    and eff: "\<forall>s. represents h2 c s
                      \<and> footprint h2 c s \<inter> (footprint h' a' ?t \<union> footprint h' 2 ?t) = {} \<longrightarrow>
                    represents h3 a' (BinaryAdditionExpr s (NumericConstantExpr (Value 2) ''b'') ''c'')"
    by blast
  from eff [rule_format, OF conjI [OF rs ds]]
  have rc3: "represents h3 a' (BinaryAdditionExpr ?s (NumericConstantExpr (Value 2) ''b'') ''c'')" .
  from rp ro3 eo3 rc3 have
    "\<exists>h3. ReplaceLeft a' (fst (new (NumericNode (Value 9) '''') h'))
                   (snd (new (NumericNode (Value 9) '''') h')) = Some h3
       \<and> represents h3 2 ?t
       \<and> Evaluate_heap 2 h3 = Some (Inr 3)
       \<and> represents h3 a' (BinaryAdditionExpr ?s (NumericConstantExpr (Value 2) ''b'') ''c'')"
    unfolding c_def h2_def ev by blast
  with clone a' rc ro ec [unfolded ev] have
    "\<exists>a' h'. Clone_heap 2 ?h = Some (a', h') \<and> a' = 5 \<and> represents h' a' ?t \<and> represents h' 2 ?t
       \<and> Evaluate_heap a' h' = Some (Inr 3)
       \<and> (\<exists>h3. ReplaceLeft a' (fst (new (NumericNode (Value 9) '''') h'))
                   (snd (new (NumericNode (Value 9) '''') h')) = Some h3
              \<and> represents h3 2 ?t
              \<and> Evaluate_heap 2 h3 = Some (Inr 3)
              \<and> represents h3 a' (BinaryAdditionExpr ?s (NumericConstantExpr (Value 2) ''b'') ''c''))"
    by blast
  with wf rep show ?thesis by blast
qed

end
